theory Spec2Isabelle
  imports Complex_Main "HOL-Library.Multiset"
begin

section \<open>JavaScript numbers\<close>

text \<open>
  Every number of the component is a JavaScript Number: an IEEE 754 binary64 value.
  \<open>Finite s m e\<close> is the value \<open>(-1)\<^sup>s \<cdot> m \<cdot> 2\<^sup>e\<close>; a binary64 value has
  \<open>m < 2 ^ 53\<close>, \<open>-1074 \<le> e \<le> 971\<close>, and \<open>2 ^ 52 \<le> m\<close> unless \<open>e = -1074\<close>
  (the subnormal numbers and the two zeros, \<open>m = 0\<close>). In this form two numbers are
  the same JavaScript value exactly when they are equal terms, so equality of the
  model is bit-identity (JavaScript cannot tell one NaN from another).
\<close>

datatype number = Finite bool nat int | Infinity bool | NaN

fun bit_length :: "nat \<Rightarrow> nat" where
  "bit_length n = (if n = 0 then 0 else bit_length (n div 2) + 1)"

declare bit_length.simps [simp del]

text \<open>
  \<open>\<lfloor>log\<^sub>2 (n / d)\<rfloor>\<close> for positive \<open>n\<close> and \<open>d\<close>: the difference \<open>a\<close> of the bit lengths,
  or one less.
\<close>

definition ilog2_adjust :: "nat \<Rightarrow> nat \<Rightarrow> int \<Rightarrow> int" where
  "ilog2_adjust n d a =
     (if (if 0 \<le> a then d * 2 ^ nat a \<le> n else d \<le> n * 2 ^ nat (- a)) then a else a - 1)"

definition ilog2_frac :: "nat \<Rightarrow> nat \<Rightarrow> int" where
  "ilog2_frac n d = ilog2_adjust n d (int (bit_length n) - int (bit_length d))"

text \<open>
  The integer nearest to \<open>N / D\<close>, the even one of the two when \<open>N / D\<close> is halfway
  between them; \<open>q\<close> and \<open>r\<close> are the quotient and the remainder.
\<close>

definition nearest_even :: "nat \<Rightarrow> nat \<Rightarrow> nat \<Rightarrow> nat" where
  "nearest_even q r D =
     (if 2 * r < D then q else if D < 2 * r then q + 1 else if even q then q else q + 1)"

definition round_ties_even :: "nat \<Rightarrow> nat \<Rightarrow> nat" where
  "round_ties_even N D = nearest_even (N div D) (N mod D) D"

text \<open>
  Rounding to nearest, ties to even, of the exact value \<open>(-1)\<^sup>s \<cdot> (n / d) \<cdot> 2\<^sup>e\<close>. The
  binary64 values around the exact value are the multiples of \<open>2\<^sup>t\<close>, where \<open>t\<close> leaves
  53 significant bits and is never below \<open>-1074\<close>; the result is the nearest multiple
  \<open>k \<cdot> 2\<^sup>t\<close>. A result of magnitude \<open>2 ^ 1024\<close> or more is an infinity, a result of
  magnitude zero keeps the sign.
\<close>

definition pack :: "bool \<Rightarrow> nat \<Rightarrow> int \<Rightarrow> number" where
  "pack s k t =
     (if k = 2 ^ 53 then (if 971 < t + 1 then Infinity s else Finite s (2 ^ 52) (t + 1))
      else if 971 < t then Infinity s
      else Finite s k t)"

definition round_at :: "bool \<Rightarrow> nat \<Rightarrow> nat \<Rightarrow> int \<Rightarrow> int \<Rightarrow> number" where
  "round_at s n d e t =
     pack s (if t \<le> e then round_ties_even (n * 2 ^ nat (e - t)) d
             else round_ties_even n (d * 2 ^ nat (t - e))) t"

definition round_number :: "bool \<Rightarrow> nat \<Rightarrow> nat \<Rightarrow> int \<Rightarrow> number" where
  "round_number s n d e =
     (if n = 0 then Finite s 0 (- 1074)
      else round_at s n d e (max (- 1074) (ilog2_frac n d + e - 52)))"

definition signed :: "bool \<Rightarrow> nat \<Rightarrow> int" where
  "signed s m = (if s then - int m else int m)"

text \<open>Rounding of the exact value \<open>c \<cdot> 2\<^sup>e\<close>; an exact zero is \<open>+0\<close>.\<close>

definition round_signed :: "int \<Rightarrow> int \<Rightarrow> number" where
  "round_signed c e =
     (if c = 0 then Finite False 0 (- 1074) else round_number (c < 0) (nat \<bar>c\<bar>) 1 e)"

text \<open>
  The arithmetic operators \<open>+\<close>, \<open>-\<close>, \<open>*\<close>, \<open>/\<close> and the comparisons \<open><\<close>, \<open><=\<close> of
  JavaScript on numbers: the exact result, rounded once. No operator raises: a
  division by zero gives an infinity or NaN.
\<close>

instantiation number :: "{zero, one, plus, uminus, minus, times, inverse, ord}"
begin

definition zero_number :: number where
  "zero_number = Finite False 0 (- 1074)"

definition one_number :: number where
  "one_number = Finite False (2 ^ 52) (- 52)"

fun plus_number :: "number \<Rightarrow> number \<Rightarrow> number" where
  "plus_number NaN _ = NaN"
| "plus_number _ NaN = NaN"
| "plus_number (Infinity s) (Infinity s') = (if s = s' then Infinity s else NaN)"
| "plus_number (Infinity s) (Finite _ _ _) = Infinity s"
| "plus_number (Finite _ _ _) (Infinity s) = Infinity s"
| plus_Finite: "plus_number (Finite s1 m1 e1) (Finite s2 m2 e2) =
     (if m1 = 0 \<and> m2 = 0 then Finite (s1 \<and> s2) 0 (- 1074)
      else if m1 = 0 then round_number s2 m2 1 e2
      else if m2 = 0 then round_number s1 m1 1 e1
      else round_signed (signed s1 m1 * 2 ^ nat (e1 - min e1 e2)
                         + signed s2 m2 * 2 ^ nat (e2 - min e1 e2)) (min e1 e2))"

fun uminus_number :: "number \<Rightarrow> number" where
  "uminus_number NaN = NaN"
| "uminus_number (Infinity s) = Infinity (\<not> s)"
| "uminus_number (Finite s m e) = Finite (\<not> s) m e"

definition minus_number :: "number \<Rightarrow> number \<Rightarrow> number" where
  "minus_number a b = a + (- b)"

fun times_number :: "number \<Rightarrow> number \<Rightarrow> number" where
  "times_number NaN _ = NaN"
| "times_number _ NaN = NaN"
| "times_number (Infinity s) (Infinity s') = Infinity (s \<noteq> s')"
| "times_number (Infinity s) (Finite s' m _) = (if m = 0 then NaN else Infinity (s \<noteq> s'))"
| "times_number (Finite s m _) (Infinity s') = (if m = 0 then NaN else Infinity (s \<noteq> s'))"
| times_Finite: "times_number (Finite s1 m1 e1) (Finite s2 m2 e2) =
     round_number (s1 \<noteq> s2) (m1 * m2) 1 (e1 + e2)"

fun divide_number :: "number \<Rightarrow> number \<Rightarrow> number" where
  "divide_number NaN _ = NaN"
| "divide_number _ NaN = NaN"
| "divide_number (Infinity s) (Infinity s') = NaN"
| "divide_number (Infinity s) (Finite s' _ _) = Infinity (s \<noteq> s')"
| "divide_number (Finite s _ _) (Infinity s') = Finite (s \<noteq> s') 0 (- 1074)"
| divide_Finite: "divide_number (Finite s1 m1 e1) (Finite s2 m2 e2) =
     (if m2 = 0 then (if m1 = 0 then NaN else Infinity (s1 \<noteq> s2))
      else round_number (s1 \<noteq> s2) m1 m2 (e1 - e2))"

definition inverse_number :: "number \<Rightarrow> number" where
  "inverse_number a = divide 1 a"

fun less_number :: "number \<Rightarrow> number \<Rightarrow> bool" where
  "less_number NaN _ = False"
| "less_number _ NaN = False"
| "less_number (Infinity s) (Infinity s') = (s \<and> \<not> s')"
| "less_number (Infinity s) (Finite _ _ _) = s"
| "less_number (Finite _ _ _) (Infinity s) = (\<not> s)"
| less_Finite: "less_number (Finite s1 m1 e1) (Finite s2 m2 e2) =
     (signed s1 m1 * 2 ^ nat (e1 - min e1 e2) < signed s2 m2 * 2 ^ nat (e2 - min e1 e2))"

fun less_eq_number :: "number \<Rightarrow> number \<Rightarrow> bool" where
  "less_eq_number NaN _ = False"
| "less_eq_number _ NaN = False"
| "less_eq_number (Infinity s) (Infinity s') = (s \<or> \<not> s')"
| "less_eq_number (Infinity s) (Finite _ _ _) = s"
| "less_eq_number (Finite _ _ _) (Infinity s) = (\<not> s)"
| less_eq_Finite: "less_eq_number (Finite s1 m1 e1) (Finite s2 m2 e2) =
     (signed s1 m1 * 2 ^ nat (e1 - min e1 e2) \<le> signed s2 m2 * 2 ^ nat (e2 - min e1 e2))"

instance ..

end

text \<open>
  A decimal literal of the source text, \<open>n / d\<close> with \<open>d\<close> a power of ten, is the
  binary64 value nearest to it: \<open>9.33\<close> is \<open>literal 933 100\<close>.
\<close>

definition literal :: "nat \<Rightarrow> nat \<Rightarrow> number" where
  "literal n d = round_number False n d 0"

text \<open>The membership tests of the binary64 values, and \<open>Number.isFinite\<close>.\<close>

fun is_double :: "number \<Rightarrow> bool" where
  "is_double (Finite s m e) =
     (m < 2 ^ 53 \<and> - 1074 \<le> e \<and> e \<le> 971 \<and> (2 ^ 52 \<le> m \<or> e = - 1074))"
| "is_double (Infinity s) = True"
| "is_double NaN = True"

fun isFinite :: "number \<Rightarrow> bool" where
  "isFinite (Finite s m e) = True"
| "isFinite (Infinity s) = False"
| "isFinite NaN = False"

fun is_zero :: "number \<Rightarrow> bool" where
  "is_zero (Finite s m e) = (m = 0)"
| "is_zero (Infinity s) = False"
| "is_zero NaN = False"

fun is_neg_zero :: "number \<Rightarrow> bool" where
  "is_neg_zero (Finite s m e) = (s \<and> m = 0)"
| "is_neg_zero (Infinity s) = False"
| "is_neg_zero NaN = False"

fun is_pos_zero :: "number \<Rightarrow> bool" where
  "is_pos_zero (Finite s m e) = (\<not> s \<and> m = 0)"
| "is_pos_zero (Infinity s) = False"
| "is_pos_zero NaN = False"

text \<open>The real number a finite binary64 value stands for.\<close>

fun valof :: "number \<Rightarrow> real" where
  "valof (Finite s m e) =
     (if 0 \<le> e then of_int (signed s m) * 2 ^ nat e else of_int (signed s m) / 2 ^ nat (- e))"
| "valof (Infinity s) = 0"
| "valof NaN = 0"

text \<open>The same value for the three fields of a finite number.\<close>

definition fin_val :: "bool \<Rightarrow> nat \<Rightarrow> int \<Rightarrow> real" where
  "fin_val s m e = of_int (signed s m) * 2 powr (of_int e)"

text \<open>
  \<open>Math.min\<close> and \<open>Math.max\<close> of an argument list, as ECMAScript gives them: the
  running value starts at \<open>+\<infinity>\<close> (at \<open>-\<infinity>\<close> for the maximum), a NaN argument makes
  the result NaN, and \<open>-0\<close> counts as smaller than \<open>+0\<close>.
\<close>

primrec min_from :: "number \<Rightarrow> number list \<Rightarrow> number" where
  "min_from lowest [] = lowest"
| "min_from lowest (x # xs) =
     (if x = NaN then NaN
      else min_from (if (is_neg_zero x \<and> is_pos_zero lowest) \<or> x < lowest then x else lowest) xs)"

primrec max_from :: "number \<Rightarrow> number list \<Rightarrow> number" where
  "max_from highest [] = highest"
| "max_from highest (x # xs) =
     (if x = NaN then NaN
      else max_from (if (is_pos_zero x \<and> is_neg_zero highest) \<or> highest < x then x else highest) xs)"

definition Math_min :: "number list \<Rightarrow> number" where
  "Math_min xs = min_from (Infinity False) xs"

definition Math_max :: "number list \<Rightarrow> number" where
  "Math_max xs = max_from (Infinity True) xs"

section \<open>The component\<close>

text \<open>
  The measurements \<open>{ voltage, current }\<close>, the accumulators of the two loops of
  \<open>calculateLinearRegression\<close> and the object it returns. The arithmetic is the
  type parameter: at \<^typ>\<open>number\<close> the definitions are the program, at \<^typ>\<open>real\<close>
  they are the same program run without rounding.
\<close>

record 'a point =
  voltage :: 'a
  current :: 'a

record 'a accumulators =
  sumX :: 'a
  sumY :: 'a
  sumXY :: 'a
  sumXX :: 'a
  sumYY :: 'a

record 'a variation =
  totalVariation :: 'a
  explainedVariation :: 'a

record 'a fit_result =
  slope :: 'a
  intercept :: 'a
  rSquared :: 'a

definition measurement :: "'a \<Rightarrow> 'a \<Rightarrow> 'a point" where
  "measurement v c = \<lparr>voltage = v, current = c\<rparr>"

text \<open>
  \<open>data.length\<close> as a number. An array has fewer than \<open>2 ^ 32\<close> elements, and counting
  up by one is exact below \<open>2 ^ 53\<close>, so this is the length itself.
\<close>

primrec length_number :: "nat \<Rightarrow> 'a::{zero,one,plus}" where
  "length_number 0 = 0"
| "length_number (Suc k) = length_number k + 1"

text \<open>The body of the first loop: one measurement added to each running sum.\<close>

definition sums_step :: "'a point \<Rightarrow> 'a accumulators \<Rightarrow> ('a::{plus,times}) accumulators" where
  "sums_step p s =
     \<lparr>sumX = sumX s + voltage p,
      sumY = sumY s + current p,
      sumXY = sumXY s + voltage p * current p,
      sumXX = sumXX s + voltage p * voltage p,
      sumYY = sumYY s + current p * current p\<rparr>"

text \<open>
  The body of the second loop. \<open>pow2 b\<close> stands for \<open>Math.pow(b, 2)\<close>, which
  ECMAScript leaves to the implementation to approximate.
\<close>

definition variation_step ::
  "('a \<Rightarrow> 'a) \<Rightarrow> 'a \<Rightarrow> 'a \<Rightarrow> 'a \<Rightarrow> 'a point \<Rightarrow> 'a variation
     \<Rightarrow> ('a::{plus,minus,times}) variation" where
  "variation_step pow2 slope_v intercept_v meanY p v =
     (let predictedY = slope_v * voltage p + intercept_v
      in \<lparr>totalVariation = totalVariation v + pow2 (current p - meanY),
          explainedVariation = explainedVariation v + pow2 (predictedY - meanY)\<rparr>)"

definition calculateLinearRegression ::
  "('a \<Rightarrow> 'a) \<Rightarrow> 'a point list \<Rightarrow> ('a::{zero,one,plus,minus,times,inverse}) fit_result" where
  "calculateLinearRegression pow2 data =
     (let n = length_number (length data);
          s = fold sums_step data \<lparr>sumX = 0, sumY = 0, sumXY = 0, sumXX = 0, sumYY = 0\<rparr>;
          slope_v = (n * sumXY s - sumX s * sumY s) / (n * sumXX s - sumX s * sumX s);
          intercept_v = (sumY s - slope_v * sumX s) / n;
          meanY = sumY s / n;
          v = fold (variation_step pow2 slope_v intercept_v meanY) data
                \<lparr>totalVariation = 0, explainedVariation = 0\<rparr>;
          rSquared_v = explainedVariation v / totalVariation v
      in \<lparr>slope = slope_v, intercept = intercept_v, rSquared = rSquared_v\<rparr>)"

text \<open>The square as one rounded multiplication, which is what V8 computes for \<open>Math.pow(b, 2)\<close>.\<close>

definition square :: "'a \<Rightarrow> 'a::times" where
  "square b = b * b"

text \<open>
  The state of the component (\<open>useState\<close>): \<open>null\<close> until the effect has run.
  \<open>generateBestFitLine\<close> reads it and the measurements; the spread of the voltages
  into \<open>Math.min\<close> and \<open>Math.max\<close> is the list of the voltages (an engine's limit on
  the number of arguments of one call is not part of the model).
\<close>

record component =
  gradient :: "number option"
  interceptState :: "number option"
  rSquaredState :: "number option"

definition initial_component :: component where
  "initial_component = \<lparr>gradient = None, interceptState = None, rSquaredState = None\<rparr>"

definition generateBestFitLine :: "component \<Rightarrow> number point list \<Rightarrow> number point list" where
  "generateBestFitLine c data =
     (if gradient c = None \<or> interceptState c = None then []
      else
        let minVoltage = Math_min (map voltage data);
            maxVoltage = Math_max (map voltage data)
        in [\<lparr>voltage = minVoltage,
              current = minVoltage * the (gradient c) + the (interceptState c)\<rparr>,
            \<lparr>voltage = maxVoltage,
              current = maxVoltage * the (gradient c) + the (interceptState c)\<rparr>])"

text \<open>
  The function body statement by statement. A scope holds what the body can reach:
  the array \<open>data\<close> and the state of the component, which the closure captures, and
  the local variables of the function, which hold whatever an earlier call left
  until the body assigns them. Each \<open>let\<close>, \<open>const\<close> and \<open>+=\<close> of the source is one
  update of the scope, in the order of the source.
\<close>

record scope =
  scope_data :: "number point list"
  scope_state :: component
  var_n :: number
  var_sumX :: number
  var_sumY :: number
  var_sumXY :: number
  var_sumXX :: number
  var_sumYY :: number
  var_slope :: number
  var_intercept :: number
  var_meanY :: number
  var_totalVariation :: number
  var_explainedVariation :: number
  var_rSquared :: number

definition first_loop_body :: "number point \<Rightarrow> scope \<Rightarrow> scope" where
  "first_loop_body point s0 =
     (let s1 = s0\<lparr>var_sumX := var_sumX s0 + voltage point\<rparr>;
          s2 = s1\<lparr>var_sumY := var_sumY s1 + current point\<rparr>;
          s3 = s2\<lparr>var_sumXY := var_sumXY s2 + voltage point * current point\<rparr>;
          s4 = s3\<lparr>var_sumXX := var_sumXX s3 + voltage point * voltage point\<rparr>;
          s5 = s4\<lparr>var_sumYY := var_sumYY s4 + current point * current point\<rparr>
      in s5)"

definition second_loop_body :: "(number \<Rightarrow> number) \<Rightarrow> number point \<Rightarrow> scope \<Rightarrow> scope" where
  "second_loop_body pow2 point s0 =
     (let predictedY = var_slope s0 * voltage point + var_intercept s0;
          s1 = s0\<lparr>var_totalVariation :=
                  var_totalVariation s0 + pow2 (current point - var_meanY s0)\<rparr>;
          s2 = s1\<lparr>var_explainedVariation :=
                  var_explainedVariation s1 + pow2 (predictedY - var_meanY s1)\<rparr>
      in s2)"

text \<open>
  A call: the object returned and the scope as the call leaves it. A \<open>for ... of\<close>
  loop runs its body once for each element of the array, in order.
\<close>

definition run_calculateLinearRegression ::
  "(number \<Rightarrow> number) \<Rightarrow> scope \<Rightarrow> number fit_result \<times> scope" where
  "run_calculateLinearRegression pow2 s0 =
     (let s1 = s0\<lparr>var_n := length_number (length (scope_data s0))\<rparr>;
          s2 = s1\<lparr>var_sumX := 0\<rparr>;
          s3 = s2\<lparr>var_sumY := 0\<rparr>;
          s4 = s3\<lparr>var_sumXY := 0\<rparr>;
          s5 = s4\<lparr>var_sumXX := 0\<rparr>;
          s6 = s5\<lparr>var_sumYY := 0\<rparr>;
          s7 = fold first_loop_body (scope_data s6) s6;
          s8 = s7\<lparr>var_slope :=
                  (var_n s7 * var_sumXY s7 - var_sumX s7 * var_sumY s7)
                  / (var_n s7 * var_sumXX s7 - var_sumX s7 * var_sumX s7)\<rparr>;
          s9 = s8\<lparr>var_intercept := (var_sumY s8 - var_slope s8 * var_sumX s8) / var_n s8\<rparr>;
          s10 = s9\<lparr>var_meanY := var_sumY s9 / var_n s9\<rparr>;
          s11 = s10\<lparr>var_totalVariation := 0\<rparr>;
          s12 = s11\<lparr>var_explainedVariation := 0\<rparr>;
          s13 = fold (second_loop_body pow2) (scope_data s12) s12;
          s14 = s13\<lparr>var_rSquared := var_explainedVariation s13 / var_totalVariation s13\<rparr>
      in (\<lparr>slope = var_slope s14, intercept = var_intercept s14, rSquared = var_rSquared s14\<rparr>,
          s14))"

text \<open>The effect: the three setters, called with the fields of the fit.\<close>

definition useEffect :: "(number \<Rightarrow> number) \<Rightarrow> number point list \<Rightarrow> component \<Rightarrow> component" where
  "useEffect pow2 data c =
     (let r = calculateLinearRegression pow2 data
      in c\<lparr>gradient := Some (slope r),
           interceptState := Some (intercept r),
           rSquaredState := Some (rSquared r)\<rparr>)"

text \<open>
  The effect in a scope: the call, then the three setters, which write the state of
  the component.
\<close>

definition run_useEffect :: "(number \<Rightarrow> number) \<Rightarrow> scope \<Rightarrow> scope" where
  "run_useEffect pow2 s0 =
     (let r = fst (run_calculateLinearRegression pow2 s0);
          s1 = snd (run_calculateLinearRegression pow2 s0);
          s2 = s1\<lparr>scope_state := (scope_state s1)\<lparr>gradient := Some (slope r)\<rparr>\<rparr>;
          s3 = s2\<lparr>scope_state := (scope_state s2)\<lparr>interceptState := Some (intercept r)\<rparr>\<rparr>;
          s4 = s3\<lparr>scope_state := (scope_state s3)\<lparr>rSquaredState := Some (rSquared r)\<rparr>\<rparr>
      in s4)"

text \<open>The table of the component.\<close>

definition data :: "number point list" where
  "data =
     [measurement (literal 0 1) (literal 0 1),
      measurement (literal 5 10) (literal 933 100),
      measurement (literal 1 1) (literal 23 1),
      measurement (literal 15 10) (literal 2466 100),
      measurement (literal 2 1) (literal 4766 100),
      measurement (literal 25 10) (literal 6066 100),
      measurement (literal 3 1) (literal 7166 100),
      measurement (literal 35 10) (literal 85 1),
      measurement (literal 4 1) (literal 9566 100)]"

text \<open>
  Two scopes of the component: one before the effect has run, with zeros in the
  local variables, and one after it, with NaN left in them.
\<close>

definition scope_before :: scope where
  "scope_before =
     \<lparr>scope_data = data, scope_state = initial_component,
      var_n = 0, var_sumX = 0, var_sumY = 0, var_sumXY = 0, var_sumXX = 0, var_sumYY = 0,
      var_slope = 0, var_intercept = 0, var_meanY = 0, var_totalVariation = 0,
      var_explainedVariation = 0, var_rSquared = 0\<rparr>"

definition scope_after :: scope where
  "scope_after =
     \<lparr>scope_data = data,
      scope_state = \<lparr>gradient = Some 1, interceptState = Some 0, rSquaredState = Some 1\<rparr>,
      var_n = NaN, var_sumX = NaN, var_sumY = NaN, var_sumXY = NaN, var_sumXX = NaN,
      var_sumYY = NaN, var_slope = NaN, var_intercept = NaN, var_meanY = NaN,
      var_totalVariation = NaN, var_explainedVariation = NaN, var_rSquared = NaN\<rparr>"

section \<open>The sums of the specification\<close>

text \<open>
  \<open>\<Sigma> f\<close> over the measurements, taken in sequence order from zero. Over the reals it
  is the sum of the list, whatever the order.
\<close>

definition sigma :: "('a point \<Rightarrow> 'a) \<Rightarrow> 'a point list \<Rightarrow> 'a::{zero,plus}" where
  "sigma f ps = foldl (\<lambda>acc p. acc + f p) 0 ps"

text \<open>The denominator of the slope, \<open>n\<cdot>\<Sigma>x\<^sup>2 - (\<Sigma>x)\<^sup>2\<close>.\<close>

definition slope_denominator :: "'a point list \<Rightarrow> 'a::{zero,one,plus,minus,times}" where
  "slope_denominator ps =
     length_number (length ps) * sigma (\<lambda>p. voltage p * voltage p) ps
       - sigma voltage ps * sigma voltage ps"

text \<open>
  The minimum and the maximum of the x-values of the specification: a member of the
  list that no member is below (above). As for \<open>Math.min\<close>, \<open>Math.max\<close> and the minimum
  and maximum of IEEE 754, they are NaN when a member is NaN.
\<close>

definition is_minimum :: "number \<Rightarrow> number list \<Rightarrow> bool" where
  "is_minimum r xs = (if NaN \<in> set xs then r = NaN else r \<in> set xs \<and> (\<forall>x\<in>set xs. r \<le> x))"

definition is_maximum :: "number \<Rightarrow> number list \<Rightarrow> bool" where
  "is_maximum r xs = (if NaN \<in> set xs then r = NaN else r \<in> set xs \<and> (\<forall>x\<in>set xs. x \<le> r))"


section \<open>Inputs on which rounding shows\<close>

text \<open>Three measurements, and the same three with the last two exchanged.\<close>

definition three_points :: "number point list" where
  "three_points =
     [measurement (literal 1 10) (literal 2 10),
      measurement (literal 2 10) (literal 5 10),
      measurement (literal 3 10) (literal 7 10)]"

definition three_points_permuted :: "number point list" where
  "three_points_permuted =
     [measurement (literal 1 10) (literal 2 10),
      measurement (literal 3 10) (literal 7 10),
      measurement (literal 2 10) (literal 5 10)]"

text \<open>Three measurements at the one voltage \<open>0.3\<close>.\<close>

definition repeated_voltage :: "number point list" where
  "repeated_voltage =
     [measurement (literal 3 10) (literal 0 1),
      measurement (literal 3 10) (literal 1 1),
      measurement (literal 3 10) (literal 2 1)]"

text \<open>Two points of the line \<open>y = 2x + 1\<close>, at \<open>x = 1\<close> and \<open>x = 2 ^ 27 + 1\<close>, and three more at \<open>x = 1, 2, 3\<close>.\<close>

definition on_line_far :: "number point list" where
  "on_line_far =
     [measurement (literal 1 1) (literal 3 1),
      measurement (literal 134217729 1) (literal 268435459 1)]"

definition on_line_near :: "number point list" where
  "on_line_near =
     [measurement (literal 1 1) (literal 3 1),
      measurement (literal 2 1) (literal 5 1),
      measurement (literal 3 1) (literal 7 1)]"

text \<open>Three measurements with whole numbers.\<close>

definition whole_points :: "number point list" where
  "whole_points =
     [measurement (literal 5 1) (literal 0 1),
      measurement (literal 4 1) (literal 1 1),
      measurement (literal 17 1) (literal 5 1)]"

section \<open>Evaluation of the arithmetic\<close>

lemma bit_length_0 [simp]: "bit_length 0 = 0"
  by (simp add: bit_length.simps)

lemma bit_length_Suc_0 [simp]: "bit_length (Suc 0) = 1"
  by (simp add: bit_length.simps)

lemma bit_length_One [simp]: "bit_length (numeral Num.One) = 1"
  by (simp add: bit_length.simps)

lemma bit_length_Bit0 [simp]: "bit_length (numeral (Num.Bit0 k)) = bit_length (numeral k) + 1"
  by (subst bit_length.simps) simp

lemma bit_length_Bit1 [simp]: "bit_length (numeral (Num.Bit1 k)) = bit_length (numeral k) + 1"
  by (subst bit_length.simps) simp

lemma length_number_numeral [simp]:
  "length_number (numeral k) = length_number (pred_numeral k) + 1"
  by (simp add: numeral_eq_Suc)

lemmas num_eval = literal_def round_number_def round_at_def pack_def ilog2_frac_def
  ilog2_adjust_def round_ties_even_def nearest_even_def round_signed_def signed_def
  zero_number_def one_number_def minus_number_def

section \<open>Order and multiplication of numbers\<close>

lemma scaled_cmp:
  fixes a b :: int
  assumes "e \<le> e1" "e \<le> e2"
  shows "(a * 2 ^ nat (e1 - e) \<le> b * 2 ^ nat (e2 - e))
         = (of_int a * 2 powr (of_int e1) \<le> (of_int b :: real) * 2 powr (of_int e2))"
    and "(a * 2 ^ nat (e1 - e) < b * 2 ^ nat (e2 - e))
         = (of_int a * 2 powr (of_int e1) < (of_int b :: real) * 2 powr (of_int e2))"
proof -
  have p1: "(2::real) powr (of_int e1) = 2 ^ nat (e1 - e) * 2 powr (of_int e)"
    using assms(1) by (simp add: powr_realpow [symmetric] powr_add [symmetric])
  have p2: "(2::real) powr (of_int e2) = 2 ^ nat (e2 - e) * 2 powr (of_int e)"
    using assms(2) by (simp add: powr_realpow [symmetric] powr_add [symmetric])
  have pos: "(0::real) < 2 powr (of_int e)" by simp
  have "(a * 2 ^ nat (e1 - e) \<le> b * 2 ^ nat (e2 - e))
        = ((of_int (a * 2 ^ nat (e1 - e)) :: real) \<le> of_int (b * 2 ^ nat (e2 - e)))"
    by (simp only: of_int_le_iff)
  also have "\<dots> = (of_int a * 2 ^ nat (e1 - e) * 2 powr (of_int e)
                    \<le> (of_int b :: real) * 2 ^ nat (e2 - e) * 2 powr (of_int e))"
    using pos by simp
  finally show "(a * 2 ^ nat (e1 - e) \<le> b * 2 ^ nat (e2 - e))
         = (of_int a * 2 powr (of_int e1) \<le> (of_int b :: real) * 2 powr (of_int e2))"
    by (simp add: p1 p2 mult.assoc)
  have "(a * 2 ^ nat (e1 - e) < b * 2 ^ nat (e2 - e))
        = ((of_int (a * 2 ^ nat (e1 - e)) :: real) < of_int (b * 2 ^ nat (e2 - e)))"
    by (simp only: of_int_less_iff)
  also have "\<dots> = (of_int a * 2 ^ nat (e1 - e) * 2 powr (of_int e)
                    < (of_int b :: real) * 2 ^ nat (e2 - e) * 2 powr (of_int e))"
    using pos by simp
  finally show "(a * 2 ^ nat (e1 - e) < b * 2 ^ nat (e2 - e))
         = (of_int a * 2 powr (of_int e1) < (of_int b :: real) * 2 powr (of_int e2))"
    by (simp add: p1 p2 mult.assoc)
qed

lemma le_Finite_iff:
  "(Finite s1 m1 e1 \<le> Finite s2 m2 e2) = (fin_val s1 m1 e1 \<le> fin_val s2 m2 e2)"
  by (simp add: fin_val_def scaled_cmp(1) [of "min e1 e2" e1 e2])

lemma less_Finite_iff:
  "(Finite s1 m1 e1 < Finite s2 m2 e2) = (fin_val s1 m1 e1 < fin_val s2 m2 e2)"
  by (simp add: fin_val_def scaled_cmp(2) [of "min e1 e2" e1 e2])


lemma number_le_refl: "a \<noteq> NaN \<Longrightarrow> a \<le> (a::number)"
  by (cases a) simp_all

lemma number_le_trans: "a \<le> b \<Longrightarrow> b \<le> c \<Longrightarrow> a \<le> (c::number)"
  by (cases a; cases b; cases c)
     (auto simp del: less_eq_Finite simp add: le_Finite_iff)

lemma number_less_le_trans: "a < b \<Longrightarrow> b \<le> c \<Longrightarrow> a \<le> (c::number)"
  by (cases a; cases b; cases c)
     (auto simp del: less_eq_Finite less_Finite simp add: le_Finite_iff less_Finite_iff)

lemma number_le_less_trans: "a \<le> b \<Longrightarrow> b < c \<Longrightarrow> a \<le> (c::number)"
  by (cases a; cases b; cases c)
     (auto simp del: less_eq_Finite less_Finite simp add: le_Finite_iff less_Finite_iff)

lemma number_not_less: "a \<noteq> NaN \<Longrightarrow> b \<noteq> NaN \<Longrightarrow> \<not> a < b \<Longrightarrow> b \<le> (a::number)"
  by (cases a; cases b)
     (auto simp del: less_eq_Finite less_Finite simp add: le_Finite_iff less_Finite_iff)

lemma zeros_le: "is_neg_zero a \<Longrightarrow> is_pos_zero b \<Longrightarrow> a \<le> b \<and> b \<le> a"
  by (cases a; cases b) (auto simp add: signed_def)

lemma sign_commute: "(s \<noteq> s') = (s' \<noteq> s)" for s s' :: bool
  by auto

lemma times_number_commute: "a * b = b * (a::number)"
proof (cases a)
  case (Finite s1 m1 e1)
  show ?thesis
  proof (cases b)
    case (Finite s2 m2 e2)
    have "round_number (s1 \<noteq> s2) (m1 * m2) 1 (e1 + e2)
          = round_number (s2 \<noteq> s1) (m2 * m1) 1 (e2 + e1)"
      by (simp only: sign_commute [of s1 s2] mult.commute [of m1 m2] add.commute [of e1 e2])
    then show ?thesis
      using \<open>a = Finite s1 m1 e1\<close> Finite by (simp del: One_nat_def)
  next
    case (Infinity s2)
    then show ?thesis
      using \<open>a = Finite s1 m1 e1\<close> sign_commute [of s1 s2] by simp
  next
    case NaN
    then show ?thesis
      using \<open>a = Finite s1 m1 e1\<close> by simp
  qed
next
  case (Infinity s1)
  then show ?thesis
    using sign_commute [of s1] by (cases b) auto
next
  case NaN
  then show ?thesis
    by (cases b) simp_all
qed

lemma number_less_imp_le: "a < b \<Longrightarrow> a \<le> (b::number)"
  by (cases a; cases b)
     (auto simp del: less_eq_Finite less_Finite simp add: le_Finite_iff less_Finite_iff)

lemma min_from_NaN: "NaN \<in> set xs \<Longrightarrow> min_from lowest xs = NaN"
  by (induction xs arbitrary: lowest) auto

lemma max_from_NaN: "NaN \<in> set xs \<Longrightarrow> max_from highest xs = NaN"
  by (induction xs arbitrary: highest) auto

lemma min_from_least:
  assumes "NaN \<notin> set xs" "lowest \<noteq> NaN"
  shows "min_from lowest xs \<le> lowest \<and> (\<forall>x\<in>set xs. min_from lowest xs \<le> x)
         \<and> (min_from lowest xs = lowest \<or> min_from lowest xs \<in> set xs)"
  using assms
proof (induction xs arbitrary: lowest)
  case Nil
  then show ?case by (simp add: number_le_refl)
next
  case (Cons x xs)
  define new where "new = (if (is_neg_zero x \<and> is_pos_zero lowest) \<or> x < lowest then x else lowest)"
  have x: "x \<noteq> NaN" and xs: "NaN \<notin> set xs"
    using Cons.prems(1) by auto
  have new: "new \<noteq> NaN"
    using x Cons.prems(2) by (simp add: new_def)
  have new_lowest: "new \<le> lowest"
    using Cons.prems(2) by (auto simp add: new_def number_le_refl number_less_imp_le zeros_le)
  have new_x: "new \<le> x"
    using x Cons.prems(2) by (auto simp add: new_def number_le_refl number_not_less)
  have step: "min_from lowest (x # xs) = min_from new xs"
    using x by (simp add: new_def)
  from Cons.IH [OF xs new]
  have ih: "min_from new xs \<le> new" "\<forall>y\<in>set xs. min_from new xs \<le> y"
    "min_from new xs = new \<or> min_from new xs \<in> set xs"
    by auto
  have r1: "min_from new xs \<le> lowest"
    by (rule number_le_trans [OF ih(1) new_lowest])
  have r2: "min_from new xs \<le> x"
    by (rule number_le_trans [OF ih(1) new_x])
  have "new = lowest \<or> new = x"
    by (simp add: new_def)
  with ih(3) have r3: "min_from new xs = lowest \<or> min_from new xs \<in> set (x # xs)"
    by auto
  show ?case
    unfolding step using r1 r2 r3 ih(2) by simp
qed

lemma max_from_greatest:
  assumes "NaN \<notin> set xs" "highest \<noteq> NaN"
  shows "highest \<le> max_from highest xs \<and> (\<forall>x\<in>set xs. x \<le> max_from highest xs)
         \<and> (max_from highest xs = highest \<or> max_from highest xs \<in> set xs)"
  using assms
proof (induction xs arbitrary: highest)
  case Nil
  then show ?case by (simp add: number_le_refl)
next
  case (Cons x xs)
  define new where "new = (if (is_pos_zero x \<and> is_neg_zero highest) \<or> highest < x then x else highest)"
  have x: "x \<noteq> NaN" and xs: "NaN \<notin> set xs"
    using Cons.prems(1) by auto
  have new: "new \<noteq> NaN"
    using x Cons.prems(2) by (simp add: new_def)
  have new_highest: "highest \<le> new"
    using Cons.prems(2) by (auto simp add: new_def number_le_refl number_less_imp_le zeros_le)
  have new_x: "x \<le> new"
    using x Cons.prems(2) by (auto simp add: new_def number_le_refl number_not_less)
  have step: "max_from highest (x # xs) = max_from new xs"
    using x by (simp add: new_def)
  from Cons.IH [OF xs new]
  have ih: "new \<le> max_from new xs" "\<forall>y\<in>set xs. y \<le> max_from new xs"
    "max_from new xs = new \<or> max_from new xs \<in> set xs"
    by auto
  have r1: "highest \<le> max_from new xs"
    by (rule number_le_trans [OF new_highest ih(1)])
  have r2: "x \<le> max_from new xs"
    by (rule number_le_trans [OF new_x ih(1)])
  have "new = highest \<or> new = x"
    by (simp add: new_def)
  with ih(3) have r3: "max_from new xs = highest \<or> max_from new xs \<in> set (x # xs)"
    by auto
  show ?case
    unfolding step using r1 r2 r3 ih(2) by simp
qed

lemma le_pos_Infinity: "Infinity False \<le> x \<Longrightarrow> x = Infinity False"
  by (cases x) simp_all

lemma le_neg_Infinity: "x \<le> Infinity True \<Longrightarrow> x = Infinity True"
  by (cases x) simp_all

lemma Math_min_is_minimum: "xs \<noteq> [] \<Longrightarrow> is_minimum (Math_min xs) xs"
proof (cases "NaN \<in> set xs")
  case True
  then show ?thesis
    by (simp add: is_minimum_def Math_min_def min_from_NaN)
next
  case False
  assume ne: "xs \<noteq> []"
  from min_from_least [OF False, of "Infinity False"]
  have l: "\<forall>x\<in>set xs. Math_min xs \<le> x"
    and m: "Math_min xs = Infinity False \<or> Math_min xs \<in> set xs"
    by (simp_all add: Math_min_def)
  have "Math_min xs \<in> set xs"
  proof (cases "Math_min xs \<in> set xs")
    case True
    then show ?thesis .
  next
    case False
    with m have inf: "Math_min xs = Infinity False" by simp
    from ne obtain y where y: "y \<in> set xs" by (cases xs) auto
    with l inf have "y = Infinity False" by (simp add: le_pos_Infinity)
    with y inf show ?thesis by simp
  qed
  with l False show ?thesis
    by (simp add: is_minimum_def)
qed

lemma Math_max_is_maximum: "xs \<noteq> [] \<Longrightarrow> is_maximum (Math_max xs) xs"
proof (cases "NaN \<in> set xs")
  case True
  then show ?thesis
    by (simp add: is_maximum_def Math_max_def max_from_NaN)
next
  case False
  assume ne: "xs \<noteq> []"
  from max_from_greatest [OF False, of "Infinity True"]
  have l: "\<forall>x\<in>set xs. x \<le> Math_max xs"
    and m: "Math_max xs = Infinity True \<or> Math_max xs \<in> set xs"
    by (simp_all add: Math_max_def)
  have "Math_max xs \<in> set xs"
  proof (cases "Math_max xs \<in> set xs")
    case True
    then show ?thesis .
  next
    case False
    with m have inf: "Math_max xs = Infinity True" by simp
    from ne obtain y where y: "y \<in> set xs" by (cases xs) auto
    with l inf have "y = Infinity True" by (simp add: le_neg_Infinity)
    with y inf show ?thesis by simp
  qed
  with l False show ?thesis
    by (simp add: is_maximum_def)
qed

section \<open>The two loops\<close>

lemma fold_sums_step:
  "fold sums_step ps s =
     \<lparr>sumX = foldl (\<lambda>acc p. acc + voltage p) (sumX s) ps,
      sumY = foldl (\<lambda>acc p. acc + current p) (sumY s) ps,
      sumXY = foldl (\<lambda>acc p. acc + voltage p * current p) (sumXY s) ps,
      sumXX = foldl (\<lambda>acc p. acc + voltage p * voltage p) (sumXX s) ps,
      sumYY = foldl (\<lambda>acc p. acc + current p * current p) (sumYY s) ps\<rparr>"
  by (induction ps arbitrary: s) (simp_all add: sums_step_def)

lemma fold_variation_step:
  "fold (variation_step pow2 a b c) ps v =
     \<lparr>totalVariation = foldl (\<lambda>acc p. acc + pow2 (current p - c)) (totalVariation v) ps,
      explainedVariation =
        foldl (\<lambda>acc p. acc + pow2 (a * voltage p + b - c)) (explainedVariation v) ps\<rparr>"
  by (induction ps arbitrary: v) (simp_all add: variation_step_def)

lemma slope_sigma:
  fixes ps :: "('a::{zero,one,plus,minus,times,inverse}) point list"
  shows "slope (calculateLinearRegression pow2 ps) =
           (length_number (length ps) * sigma (\<lambda>p. voltage p * current p) ps
              - sigma voltage ps * sigma current ps)
           / (length_number (length ps) * sigma (\<lambda>p. voltage p * voltage p) ps
              - sigma voltage ps * sigma voltage ps)"
  by (simp add: calculateLinearRegression_def Let_def fold_sums_step sigma_def)

lemma intercept_sigma:
  fixes ps :: "('a::{zero,one,plus,minus,times,inverse}) point list"
  shows "intercept (calculateLinearRegression pow2 ps) =
           (sigma current ps - slope (calculateLinearRegression pow2 ps) * sigma voltage ps)
           / length_number (length ps)"
  by (simp add: calculateLinearRegression_def Let_def fold_sums_step sigma_def)

lemma rSquared_sigma:
  fixes ps :: "('a::{zero,one,plus,minus,times,inverse}) point list"
  shows "rSquared (calculateLinearRegression pow2 ps) =
           sigma (\<lambda>p. pow2 (slope (calculateLinearRegression pow2 ps) * voltage p
                              + intercept (calculateLinearRegression pow2 ps)
                              - sigma current ps / length_number (length ps))) ps
           / sigma (\<lambda>p. pow2 (current p - sigma current ps / length_number (length ps))) ps"
  by (simp add: calculateLinearRegression_def Let_def fold_sums_step fold_variation_step
      sigma_def)

text \<open>
  C1. For every sequence of measurements the fit returns
  \<open>slope = (n\<cdot>\<Sigma>xy - \<Sigma>x\<cdot>\<Sigma>y) / (n\<cdot>\<Sigma>x\<^sup>2 - \<Sigma>x\<cdot>\<Sigma>x)\<close> and
  \<open>intercept = (\<Sigma>y - slope\<cdot>\<Sigma>x) / n\<close>, with \<open>n\<close> the length of the sequence and the sums
  over all its points. The statement holds in the arithmetic of the program (each
  operator rounding as JavaScript does, the sums taken in sequence order) and in
  exact arithmetic alike.
\<close>

theorem fit_slope_intercept:
  fixes ps :: "('a::{zero,one,plus,minus,times,inverse}) point list"
  shows "slope (calculateLinearRegression pow2 ps) =
           (length_number (length ps) * sigma (\<lambda>p. voltage p * current p) ps
              - sigma voltage ps * sigma current ps)
           / (length_number (length ps) * sigma (\<lambda>p. voltage p * voltage p) ps
              - sigma voltage ps * sigma voltage ps)
         \<and> intercept (calculateLinearRegression pow2 ps) =
           (sigma current ps - slope (calculateLinearRegression pow2 ps) * sigma voltage ps)
           / length_number (length ps)"
  using slope_sigma [of pow2 ps] intercept_sigma [of pow2 ps] by (rule conjI)

text \<open>
  C2. For every sequence of measurements the fit returns
  \<open>rSquared = explainedVariation / totalVariation\<close>, where \<open>meanY = \<Sigma>y / n\<close>,
  \<open>totalVariation = \<Sigma>(y - meanY)\<^sup>2\<close>, \<open>explainedVariation = \<Sigma>(\<^bold>y - meanY)\<^sup>2\<close> and
  \<open>\<^bold>y = slope\<cdot>x + intercept\<close> is the prediction of the same fit. The square is
  whatever \<open>Math.pow(\<cdot>, 2)\<close> computes.
\<close>

theorem fit_rSquared:
  fixes ps :: "('a::{zero,one,plus,minus,times,inverse}) point list"
  shows "rSquared (calculateLinearRegression pow2 ps) =
           sigma (\<lambda>p. pow2 (slope (calculateLinearRegression pow2 ps) * voltage p
                              + intercept (calculateLinearRegression pow2 ps)
                              - sigma current ps / length_number (length ps))) ps
           / sigma (\<lambda>p. pow2 (current p - sigma current ps / length_number (length ps))) ps"
  by (rule rSquared_sigma)

section \<open>The segment of the best fit\<close>

text \<open>
  C3. Whenever slope and intercept are available, \<open>generateBestFitLine\<close> on a
  non-empty sequence returns exactly the two points \<open>(minX, slope\<cdot>minX + intercept)\<close>
  and \<open>(maxX, slope\<cdot>maxX + intercept)\<close>, where \<open>minX\<close> and \<open>maxX\<close> are the minimum and
  the maximum of the x-values of the whole sequence, wherever they stand in it
  (and NaN when an x-value is NaN, as the minimum and maximum of IEEE 754 are).
  The y-values are \<open>slope\<cdot>x + intercept\<close> in the arithmetic of the program: the
  product rounded, then the sum rounded.
\<close>

theorem bestFitSegment_endpoints:
  assumes "ps \<noteq> []" and "gradient c = Some g" and "interceptState c = Some i"
  shows "\<exists>minX maxX.
           is_minimum minX (map voltage ps) \<and> is_maximum maxX (map voltage ps)
           \<and> generateBestFitLine c ps =
               [\<lparr>voltage = minX, current = g * minX + i\<rparr>,
                \<lparr>voltage = maxX, current = g * maxX + i\<rparr>]"
proof -
  have ne: "map voltage ps \<noteq> []"
    using assms(1) by simp
  have "generateBestFitLine c ps =
          [\<lparr>voltage = Math_min (map voltage ps), current = g * Math_min (map voltage ps) + i\<rparr>,
           \<lparr>voltage = Math_max (map voltage ps), current = g * Math_max (map voltage ps) + i\<rparr>]"
    using assms(2,3)
    by (simp add: generateBestFitLine_def Let_def times_number_commute [of _ g])
  with Math_min_is_minimum [OF ne] Math_max_is_maximum [OF ne] show ?thesis
    by blast
qed

theorem bestFitSegment_endpoints_witness:
  "\<exists>minX maxX.
     is_minimum minX (map voltage data) \<and> is_maximum maxX (map voltage data)
     \<and> generateBestFitLine
          \<lparr>gradient = Some (literal 2 1), interceptState = Some (literal 1 1),
             rSquaredState = None\<rparr> data =
         [\<lparr>voltage = minX, current = literal 2 1 * minX + literal 1 1\<rparr>,
          \<lparr>voltage = maxX, current = literal 2 1 * maxX + literal 1 1\<rparr>]"
  by (rule bestFitSegment_endpoints) (simp_all add: data_def)

text \<open>
  C4. \<open>generateBestFitLine\<close> returns the empty sequence if the slope or the intercept
  is not yet available (\<open>null\<close>), and otherwise a sequence of exactly two points; no
  other length is possible.
\<close>

theorem bestFitLine_empty_or_two:
  "(gradient c = None \<or> interceptState c = None \<longrightarrow> generateBestFitLine c ps = [])
   \<and> (gradient c \<noteq> None \<and> interceptState c \<noteq> None \<longrightarrow> length (generateBestFitLine c ps) = 2)
   \<and> length (generateBestFitLine c ps) \<in> {0, 2}"
  by (simp add: generateBestFitLine_def Let_def)

theorem bestFitLine_empty_or_two_witness:
  "generateBestFitLine initial_component data = []
   \<and> length (generateBestFitLine (useEffect square data initial_component) data) = 2"
  using bestFitLine_empty_or_two [of initial_component data]
    bestFitLine_empty_or_two [of "useEffect square data initial_component" data]
  by (simp add: initial_component_def useEffect_def Let_def)

section \<open>Determinism\<close>

text \<open>
  The first loop leaves in the five accumulators the sums over the array, added to
  what they held, and touches nothing else; so does the second loop for its two.
\<close>

lemma fold_first_loop_body:
  "fold first_loop_body ps s =
     s\<lparr>var_sumX := foldl (\<lambda>acc p. acc + voltage p) (var_sumX s) ps,
       var_sumY := foldl (\<lambda>acc p. acc + current p) (var_sumY s) ps,
       var_sumXY := foldl (\<lambda>acc p. acc + voltage p * current p) (var_sumXY s) ps,
       var_sumXX := foldl (\<lambda>acc p. acc + voltage p * voltage p) (var_sumXX s) ps,
       var_sumYY := foldl (\<lambda>acc p. acc + current p * current p) (var_sumYY s) ps\<rparr>"
  by (induction ps arbitrary: s) (simp_all add: first_loop_body_def)

lemma fold_second_loop_body:
  "fold (second_loop_body pow2) ps s =
     s\<lparr>var_totalVariation :=
         foldl (\<lambda>acc p. acc + pow2 (current p - var_meanY s)) (var_totalVariation s) ps,
       var_explainedVariation :=
         foldl (\<lambda>acc p. acc + pow2 (var_slope s * voltage p + var_intercept s - var_meanY s))
           (var_explainedVariation s) ps\<rparr>"
  by (induction ps arbitrary: s) (simp_all add: second_loop_body_def)

text \<open>
  The object a call returns is the fit of the array in its scope, whatever the
  state of the component and the local variables held before.
\<close>

lemma run_result:
  "fst (run_calculateLinearRegression pow2 s) = calculateLinearRegression pow2 (scope_data s)"
  by (simp add: run_calculateLinearRegression_def calculateLinearRegression_def Let_def
      fold_first_loop_body fold_second_loop_body fold_sums_step fold_variation_step)

lemma run_frame:
  "scope_data (snd (run_calculateLinearRegression pow2 s)) = scope_data s"
  "scope_state (snd (run_calculateLinearRegression pow2 s)) = scope_state s"
  by (simp_all add: run_calculateLinearRegression_def Let_def
      fold_first_loop_body fold_second_loop_body)

text \<open>The effect, unlike the call, writes the state: what \<open>useEffect\<close> computes.\<close>

lemma run_useEffect_state:
  "scope_state (run_useEffect pow2 s) = useEffect pow2 (scope_data s) (scope_state s)"
  "scope_data (run_useEffect pow2 s) = scope_data s"
  by (simp_all add: run_useEffect_def useEffect_def Let_def run_result run_frame)

text \<open>
  The loop alone does not start afresh: run a second time in the scope it left, it
  adds to the sums it finds there. The same result of a second call rests on the
  assignments of zero before the loop.
\<close>

lemma first_loop_carries_over:
  "var_sumX (fold first_loop_body [measurement 1 1] scope_before) = 1
   \<and> var_sumX (fold first_loop_body [measurement 1 1]
                  (fold first_loop_body [measurement 1 1] scope_before)) = literal 2 1"
  by (simp add: first_loop_body_def Let_def measurement_def scope_before_def num_eval)

text \<open>
  C5. The fit is deterministic and pure. A second call, made in the scope the
  first call left, returns the same slope, intercept and rSquared, bit for bit;
  two calls in scopes with the same array return the same, whatever the state of
  the component and the local variables hold; and a call leaves the array and the
  state of the component as they were.
\<close>

theorem fit_deterministic_pure:
  "fst (run_calculateLinearRegression pow2 (snd (run_calculateLinearRegression pow2 s)))
     = fst (run_calculateLinearRegression pow2 s)
   \<and> (scope_data s = scope_data s' \<longrightarrow>
        fst (run_calculateLinearRegression pow2 s) = fst (run_calculateLinearRegression pow2 s'))
   \<and> scope_data (snd (run_calculateLinearRegression pow2 s)) = scope_data s
   \<and> scope_state (snd (run_calculateLinearRegression pow2 s)) = scope_state s"
  by (simp add: run_result run_frame)

theorem fit_deterministic_pure_witness:
  "scope_data scope_before = scope_data scope_after
   \<and> scope_state scope_before \<noteq> scope_state scope_after
   \<and> var_sumX scope_before \<noteq> var_sumX scope_after
   \<and> fst (run_calculateLinearRegression square scope_before)
       = fst (run_calculateLinearRegression square scope_after)
   \<and> scope_data (snd (run_calculateLinearRegression square scope_after)) = data
   \<and> scope_state (snd (run_calculateLinearRegression square scope_after))
       = \<lparr>gradient = Some 1, interceptState = Some 0, rSquaredState = Some 1\<rparr>"
  using fit_deterministic_pure [of square scope_before scope_after]
    fit_deterministic_pure [of square scope_after scope_before]
  by (simp add: scope_before_def scope_after_def initial_component_def zero_number_def)

section \<open>Exact arithmetic\<close>

text \<open>
  Over the reals the sums are the sums of the lists and \<open>data.length\<close> is the length.
\<close>

lemma foldl_plus_sum_list:
  fixes a :: "'a::monoid_add"
  shows "foldl (\<lambda>acc p. acc + f p) a ps = a + sum_list (map f ps)"
  by (induction ps arbitrary: a) (simp_all add: add.assoc)

lemma sigma_sum_list:
  fixes f :: "'a point \<Rightarrow> 'a::monoid_add"
  shows "sigma f ps = sum_list (map f ps)"
  by (simp add: sigma_def foldl_plus_sum_list)

lemma length_number_of_nat: "length_number k = (of_nat k :: 'a::semiring_1)"
  by (induction k) (simp_all add: add.commute)

lemma sigma_mset:
  fixes f :: "real point \<Rightarrow> real"
  assumes "mset ps = mset qs"
  shows "sigma f ps = sigma f qs"
proof -
  have "sum_list (map f ps) = sum_mset (image_mset f (mset ps))"
    by (metis mset_map sum_mset_sum_list)
  also have "\<dots> = sum_mset (image_mset f (mset qs))"
    using assms by simp
  also have "\<dots> = sum_list (map f qs)"
    by (metis mset_map sum_mset_sum_list)
  finally show ?thesis
    by (simp add: sigma_sum_list)
qed

lemma sum_list_map_cong_set:
  assumes "\<And>p. p \<in> set ps \<Longrightarrow> f p = g p"
  shows "sum_list (map f ps) = sum_list (map g ps)"
  using assms by (induction ps) simp_all

lemma denominator_variance:
  fixes ps :: "real point list"
  assumes "ps \<noteq> []"
  defines "n \<equiv> real (length ps)"
  defines "m \<equiv> sum_list (map voltage ps) / n"
  shows "slope_denominator ps = n * (\<Sum>p\<leftarrow>ps. (voltage p - m) * (voltage p - m))"
proof -
  have n: "n \<noteq> 0"
    using assms(1) by (simp add: n_def)
  have "(\<Sum>p\<leftarrow>ps. (voltage p - m) * (voltage p - m))
        = (\<Sum>p\<leftarrow>ps. voltage p * voltage p - 2 * m * voltage p + m * m)"
    by (rule sum_list_map_cong_set) (simp add: algebra_simps)
  also have "\<dots> = (\<Sum>p\<leftarrow>ps. voltage p * voltage p) - 2 * m * (\<Sum>p\<leftarrow>ps. voltage p) + n * (m * m)"
    by (simp add: sum_list_addf sum_list_subtractf sum_list_const_mult sum_list_triv n_def)
  finally have "n * (\<Sum>p\<leftarrow>ps. (voltage p - m) * (voltage p - m))
        = n * (\<Sum>p\<leftarrow>ps. voltage p * voltage p) - (\<Sum>p\<leftarrow>ps. voltage p) * (\<Sum>p\<leftarrow>ps. voltage p)"
    using n by (simp add: m_def field_simps)
  then show ?thesis
    by (simp add: slope_denominator_def sigma_sum_list length_number_of_nat n_def)
qed

lemma sum_squares_zero_iff:
  fixes ps :: "real point list"
  shows "((\<Sum>p\<leftarrow>ps. (voltage p - m) * (voltage p - m)) = 0) = (\<forall>p\<in>set ps. voltage p = m)"
proof -
  have "((\<Sum>p\<leftarrow>ps. (voltage p - m) * (voltage p - m)) = 0)
        = (\<forall>x\<in>set (map (\<lambda>p. (voltage p - m) * (voltage p - m)) ps). x = 0)"
    by (rule sum_list_nonneg_eq_0_iff) auto
  then show ?thesis
    by simp
qed

lemma slope_denominator_zero_iff:
  fixes ps :: "real point list"
  assumes "ps \<noteq> []"
  shows "(slope_denominator ps = 0) = (\<forall>p\<in>set ps. \<forall>q\<in>set ps. voltage p = voltage q)"
proof -
  define n where "n = real (length ps)"
  define m where "m = sum_list (map voltage ps) / n"
  have n: "n \<noteq> 0"
    using assms by (simp add: n_def)
  have dv: "slope_denominator ps = n * (\<Sum>p\<leftarrow>ps. (voltage p - m) * (voltage p - m))"
    unfolding n_def m_def by (rule denominator_variance [OF assms])
  have d: "(slope_denominator ps = 0) = (\<forall>p\<in>set ps. voltage p = m)"
    unfolding dv using n by (simp only: mult_eq_0_iff sum_squares_zero_iff) simp
  show ?thesis
  proof
    assume "slope_denominator ps = 0"
    with d have "\<forall>p\<in>set ps. voltage p = m"
      by blast
    then show "\<forall>p\<in>set ps. \<forall>q\<in>set ps. voltage p = voltage q"
      by simp
  next
    assume eq: "\<forall>p\<in>set ps. \<forall>q\<in>set ps. voltage p = voltage q"
    from assms obtain p0 where p0: "p0 \<in> set ps"
      by (cases ps) auto
    have "sum_list (map voltage ps) = sum_list (map (\<lambda>p. voltage p0) ps)"
      using eq p0 by (intro sum_list_map_cong_set) blast
    also have "\<dots> = n * voltage p0"
      by (simp add: sum_list_triv n_def)
    finally have "m = voltage p0"
      using n by (simp add: m_def)
    moreover have "\<forall>p\<in>set ps. voltage p = voltage p0"
      using eq p0 by blast
    ultimately have "\<forall>p\<in>set ps. voltage p = m"
      by metis
    with d show "slope_denominator ps = 0"
      by blast
  qed
qed

section \<open>The order of the measurements\<close>

text \<open>
  C6, as stated: the fit of a permuted sequence is the fit of the sequence. In the
  arithmetic of the program it is not: the sums round differently in a different
  order. Exchanging the last two of three measurements changes the slope from
  \<open>2.500000000000001\<close> to \<open>2.499999999999999\<close>.
\<close>

theorem permutation_counterexample:
  "mset three_points = mset three_points_permuted
   \<and> slope (calculateLinearRegression square three_points)
       = Finite False 5629499534213122 (- 51)
   \<and> slope (calculateLinearRegression square three_points_permuted)
       = Finite False 5629499534213118 (- 51)"
  by (simp add: slope_sigma sigma_def three_points_def three_points_permuted_def
      measurement_def num_eval)

text \<open>
  C6, amended: in exact arithmetic (no operation rounding) the fit of a permuted
  sequence is the fit of the sequence: slope, intercept and rSquared are the same.
\<close>

theorem fit_permutation_exact:
  fixes ps qs :: "real point list"
  assumes "mset ps = mset qs"
  shows "calculateLinearRegression pow2 ps = calculateLinearRegression pow2 qs"
proof -
  have len: "length ps = length qs"
    using assms by (rule mset_eq_length)
  have s: "slope (calculateLinearRegression pow2 ps) = slope (calculateLinearRegression pow2 qs)"
    by (simp only: slope_sigma len sigma_mset [OF assms])
  have i: "intercept (calculateLinearRegression pow2 ps)
           = intercept (calculateLinearRegression pow2 qs)"
    by (simp only: intercept_sigma s len sigma_mset [OF assms])
  have r: "rSquared (calculateLinearRegression pow2 ps)
           = rSquared (calculateLinearRegression pow2 qs)"
    by (simp only: rSquared_sigma s i len sigma_mset [OF assms])
  show ?thesis
    using s i r by simp
qed

theorem fit_permutation_exact_witness:
  "calculateLinearRegression square
     [measurement 1 2, measurement 2 (3::real), measurement 4 5]
   = calculateLinearRegression square
     [measurement 4 5, measurement 1 2, measurement 2 (3::real)]"
  by (rule fit_permutation_exact) simp

section \<open>The table of the component\<close>

lemma data_sums:
  "fold sums_step data \<lparr>sumX = 0, sumY = 0, sumXY = 0, sumXX = 0, sumYY = 0\<rparr> =
     \<lparr>sumX = Finite False 5066549580791808 (- 48),
      sumY = Finite False 7347024657729454 (- 44),
      sumXY = Finite False 5307320637042196 (- 42),
      sumXX = Finite False 7177611906121728 (- 47),
      sumYY = Finite False 7885221003508946 (- 38)\<rparr>"
  by (simp add: data_def measurement_def sums_step_def num_eval)

lemma data_length: "length_number (length data) = Finite False 5066549580791808 (- 49)"
  by (simp add: data_def num_eval)

lemma fit_data:
  "calculateLinearRegression square data =
     \<lparr>slope = Finite False 6970915448223865 (- 48),
      intercept = Finite True 7043629817207381 (- 51),
      rSquared = Finite False 8903867679925796 (- 53)\<rparr>"
  unfolding calculateLinearRegression_def Let_def data_sums data_length
  by (simp add: data_def measurement_def variation_step_def square_def num_eval)

text \<open>
  C7, as stated: on the table of the component the slope is approximately \<open>24.59\<close>.
  It is not: the slope differs from \<open>24.59\<close> by more than \<open>0.17\<close>.
\<close>

theorem fit_data_slope_counterexample:
  "17 / 100 < \<bar>valof (slope (calculateLinearRegression square data)) - 2459 / 100\<bar>"
  by (simp add: fit_data signed_def)

text \<open>
  C7, amended: on the table of the component the fit returns the slope
  \<open>24.76566666666665\<close> (approximately \<open>24.77\<close>), the intercept \<open>-3.127999999999967\<close>
  and the rSquared \<open>0.9885278906469392\<close>, strictly less than 1 and close to 1.
\<close>

theorem fit_data_values:
  "calculateLinearRegression square data =
     \<lparr>slope = Finite False 6970915448223865 (- 48),
      intercept = Finite True 7043629817207381 (- 51),
      rSquared = Finite False 8903867679925796 (- 53)\<rparr>
   \<and> \<bar>valof (slope (calculateLinearRegression square data)) - 247657 / 10000\<bar> < 1 / 10000
   \<and> 9885 / 10000 < valof (rSquared (calculateLinearRegression square data))
   \<and> valof (rSquared (calculateLinearRegression square data)) < 9886 / 10000"
  by (simp add: fit_data signed_def)

section \<open>The centroid\<close>

text \<open>
  C10, as stated: when the denominator of the slope is not zero, the fitted line
  passes through the centroid, \<open>slope\<cdot>(\<Sigma>x/n) + intercept = \<Sigma>y/n\<close>. In the arithmetic
  of the program it need not: for the measurements \<open>(5, 0)\<close>, \<open>(4, 1)\<close>, \<open>(17, 5)\<close> the
  left side is \<open>1.9999999999999998\<close> and the right side is \<open>2\<close>.
\<close>

theorem centroid_counterexample:
  "\<not> is_zero (slope_denominator whole_points)
   \<and> slope (calculateLinearRegression square whole_points)
         * (sigma voltage whole_points / length_number (length whole_points))
       + intercept (calculateLinearRegression square whole_points)
     \<noteq> sigma current whole_points / length_number (length whole_points)"
  by (simp add: slope_sigma intercept_sigma slope_denominator_def sigma_def whole_points_def
      measurement_def num_eval)

text \<open>
  C10, amended: in exact arithmetic, for every non-empty sequence whose slope
  denominator is not zero, \<open>slope\<cdot>(\<Sigma>x/n) + intercept = \<Sigma>y/n\<close>.
\<close>

theorem centroid_exact:
  fixes ps :: "real point list"
  assumes "ps \<noteq> []" and "slope_denominator ps \<noteq> 0"
  shows "slope (calculateLinearRegression pow2 ps)
           * (sigma voltage ps / length_number (length ps))
         + intercept (calculateLinearRegression pow2 ps)
         = sigma current ps / length_number (length ps)"
proof -
  have n: "(length_number (length ps) :: real) \<noteq> 0"
    using assms(1) by (simp add: length_number_of_nat)
  show ?thesis
    using n by (simp add: intercept_sigma [of pow2 ps] field_simps)
qed

theorem centroid_exact_witness:
  "slope (calculateLinearRegression square [measurement 1 2, measurement 2 (4::real), measurement 3 3])
     * (sigma voltage [measurement 1 2, measurement 2 (4::real), measurement 3 3]
          / length_number (length [measurement 1 2, measurement 2 (4::real), measurement 3 3]))
   + intercept (calculateLinearRegression square [measurement 1 2, measurement 2 (4::real), measurement 3 3])
   = sigma current [measurement 1 2, measurement 2 (4::real), measurement 3 3]
       / length_number (length [measurement 1 2, measurement 2 (4::real), measurement 3 3])"
  by (rule centroid_exact)
     (simp_all add: slope_denominator_def sigma_def measurement_def)

section \<open>Points of a line\<close>

text \<open>
  C9, as stated: for two or more points with distinct x-values that satisfy
  \<open>y = 2x + 1\<close> exactly, the fit returns slope 2, intercept 1 and rSquared 1. In the
  arithmetic of the program it need not: for the two points \<open>(1, 3)\<close> and
  \<open>(134217729, 268435459)\<close>, which are on the line exactly, the products round and the
  slope is \<open>1.9999999999999996\<close>.
\<close>

theorem perfect_fit_counterexample:
  "valof (literal 3 1) = 2 * valof (literal 1 1) + 1
   \<and> valof (literal 268435459 1) = 2 * valof (literal 134217729 1) + 1
   \<and> literal 1 1 \<noteq> literal 134217729 1
   \<and> on_line_far =
       [measurement (literal 1 1) (literal 3 1),
        measurement (literal 134217729 1) (literal 268435459 1)]
   \<and> slope (calculateLinearRegression square on_line_far) \<noteq> literal 2 1"
  by (simp add: slope_sigma sigma_def on_line_far_def measurement_def num_eval)

lemma fit_on_line_near:
  "calculateLinearRegression square on_line_near =
     \<lparr>slope = literal 2 1, intercept = literal 1 1, rSquared = literal 1 1\<rparr>"
  by (simp add: calculateLinearRegression_def Let_def on_line_near_def measurement_def
      sums_step_def variation_step_def square_def num_eval)

text \<open>
  C9, amended: in exact arithmetic, for every sequence with at least two different
  x-values whose y-values satisfy \<open>y = 2x + 1\<close>, the fit returns slope 2, intercept 1
  and rSquared 1; in the arithmetic of the program it does so on inputs where no
  operation rounds, such as the points at \<open>x = 1, 2, 3\<close>. The square is the product.
\<close>

theorem perfect_fit_exact:
  fixes ps :: "real point list"
  assumes line: "\<forall>p\<in>set ps. current p = 2 * voltage p + 1"
    and two: "\<exists>p\<in>set ps. \<exists>q\<in>set ps. voltage p \<noteq> voltage q"
  shows "calculateLinearRegression square ps = \<lparr>slope = 2, intercept = 1, rSquared = 1\<rparr>
         \<and> calculateLinearRegression square on_line_near =
             \<lparr>slope = literal 2 1, intercept = literal 1 1, rSquared = literal 1 1\<rparr>"
proof
  define n where "n = real (length ps)"
  define Sx where "Sx = sum_list (map voltage ps)"
  define Sxx where "Sxx = (\<Sum>p\<leftarrow>ps. voltage p * voltage p)"
  define V where "V = (\<Sum>p\<leftarrow>ps. (voltage p - Sx / n) * (voltage p - Sx / n))"
  have ne: "ps \<noteq> []"
    using two by auto
  have n: "n \<noteq> 0"
    using ne by (simp add: n_def)
  have ln: "(length_number (length ps) :: real) = n"
    by (simp add: length_number_of_nat n_def)
  have D: "slope_denominator ps \<noteq> 0"
    using slope_denominator_zero_iff [OF ne] two by blast
  have Dn: "slope_denominator ps = n * Sxx - Sx * Sx"
    by (simp add: slope_denominator_def sigma_sum_list ln Sx_def Sxx_def)
  have DV: "slope_denominator ps = n * V"
    unfolding n_def V_def Sx_def by (rule denominator_variance [OF ne])
  have V: "V \<noteq> 0"
    using D DV by auto
  have "sum_list (map current ps) = (\<Sum>p\<leftarrow>ps. 2 * voltage p + 1)"
    using line by (intro sum_list_map_cong_set) simp
  also have "\<dots> = 2 * Sx + n"
    by (simp add: sum_list_addf sum_list_const_mult sum_list_triv Sx_def n_def)
  finally have Sy: "sigma current ps = 2 * Sx + n"
    by (simp add: sigma_sum_list)
  have "(\<Sum>p\<leftarrow>ps. voltage p * current p) = (\<Sum>p\<leftarrow>ps. 2 * (voltage p * voltage p) + voltage p)"
    using line by (intro sum_list_map_cong_set) (simp add: algebra_simps)
  also have "\<dots> = 2 * Sxx + Sx"
    by (simp add: sum_list_addf sum_list_const_mult Sx_def Sxx_def)
  finally have Sxy: "sigma (\<lambda>p. voltage p * current p) ps = 2 * Sxx + Sx"
    by (simp add: sigma_sum_list)
  have Sx': "sigma voltage ps = Sx" and Sxx': "sigma (\<lambda>p. voltage p * voltage p) ps = Sxx"
    by (simp_all add: sigma_sum_list Sx_def Sxx_def)
  define X where "X = n * Sxx - Sx * Sx"
  have X: "X \<noteq> 0"
    using D Dn by (simp add: X_def)
  have num: "n * (2 * Sxx + Sx) - Sx * (2 * Sx + n) = 2 * X"
    by (simp add: X_def algebra_simps)
  have "slope (calculateLinearRegression square ps)
        = (n * (2 * Sxx + Sx) - Sx * (2 * Sx + n)) / (n * Sxx - Sx * Sx)"
    by (simp only: slope_sigma ln Sy Sxy Sx' Sxx')
  also have "\<dots> = 2 * X / X"
    by (simp only: num X_def)
  also have "\<dots> = 2"
    using X by simp
  finally have s: "slope (calculateLinearRegression square ps) = 2" .
  have i: "intercept (calculateLinearRegression square ps) = 1"
    using n by (simp add: intercept_sigma s ln Sy Sx')
  have dev: "current p - (2 * Sx + n) / n = 2 * (voltage p - Sx / n)" if "p \<in> set ps" for p
    using line that n by (simp add: field_simps)
  have four: "(2 * a) * (2 * a) = 4 * (a * a)" for a :: real
    by simp
  have sq: "square (current p - (2 * Sx + n) / n)
            = 4 * ((voltage p - Sx / n) * (voltage p - Sx / n))" if "p \<in> set ps" for p
    unfolding square_def dev [OF that] by (rule four)
  have "(\<Sum>p\<leftarrow>ps. square (current p - (2 * Sx + n) / n))
        = (\<Sum>p\<leftarrow>ps. 4 * ((voltage p - Sx / n) * (voltage p - Sx / n)))"
    by (intro sum_list_map_cong_set) (rule sq)
  also have "\<dots> = 4 * V"
    by (simp add: sum_list_const_mult V_def)
  finally have T: "sigma (\<lambda>p. square (current p - (2 * Sx + n) / n)) ps = 4 * V"
    by (simp add: sigma_sum_list)
  have "(\<Sum>p\<leftarrow>ps. square (2 * voltage p + 1 - (2 * Sx + n) / n))
        = (\<Sum>p\<leftarrow>ps. square (current p - (2 * Sx + n) / n))"
    using line by (intro sum_list_map_cong_set) simp
  then have E: "sigma (\<lambda>p. square (2 * voltage p + 1 - (2 * Sx + n) / n)) ps = 4 * V"
    using T by (simp add: sigma_sum_list)
  have r: "rSquared (calculateLinearRegression square ps) = 1"
    using V by (simp add: rSquared_sigma s i ln Sy T E)
  show "calculateLinearRegression square ps = \<lparr>slope = 2, intercept = 1, rSquared = 1\<rparr>"
    using s i r by (cases "calculateLinearRegression square ps") simp
  show "calculateLinearRegression square on_line_near =
          \<lparr>slope = literal 2 1, intercept = literal 1 1, rSquared = literal 1 1\<rparr>"
    by (rule fit_on_line_near)
qed

theorem perfect_fit_exact_witness:
  "calculateLinearRegression square [measurement 0 1, measurement 1 3, measurement (5 / 2) (6::real)]
     = \<lparr>slope = 2, intercept = 1, rSquared = 1\<rparr>
   \<and> calculateLinearRegression square on_line_near =
       \<lparr>slope = literal 2 1, intercept = literal 1 1, rSquared = literal 1 1\<rparr>"
  by (rule perfect_fit_exact) (auto simp add: measurement_def)

section \<open>Rounding gives binary64 values\<close>

text \<open>
  The bit length of a positive number is the position of its leading bit; rounding
  leaves a binary64 value as it is, in whichever scale it is written, and the
  rounded value of an integer multiple of a power of two is a binary64 value.
\<close>

lemma bit_length_pos: "0 < n \<Longrightarrow> bit_length n = bit_length (n div 2) + 1"
  by (subst bit_length.simps) simp

lemma bit_length_bounds:
  "0 < n \<Longrightarrow> 2 ^ (bit_length n - 1) \<le> n \<and> n < 2 ^ bit_length n"
proof (induction n rule: bit_length.induct)
  case (1 n)
  show ?case
  proof (cases "n div 2 = 0")
    case True
    with 1(2) have "n = 1"
      by (simp add: div_eq_0_iff) 
    then show ?thesis
      by (simp add: bit_length.simps)
  next
    case False
    then have pos: "0 < n div 2"
      by simp
    from 1(1) [OF _ pos] 1(2)
    have ih: "2 ^ (bit_length (n div 2) - 1) \<le> n div 2" "n div 2 < 2 ^ bit_length (n div 2)"
      by simp_all
    have b: "0 < bit_length (n div 2)"
      using pos by (subst bit_length.simps) simp
    have eq: "bit_length n = bit_length (n div 2) + 1"
      using 1(2) by (rule bit_length_pos)
    have "2 * 2 ^ (bit_length (n div 2) - 1) \<le> n"
      using ih(1) by linarith
    moreover have "2 * 2 ^ (bit_length (n div 2) - 1) = (2::nat) ^ bit_length (n div 2)"
      using b by (cases "bit_length (n div 2)") simp_all
    moreover have "n < 2 * 2 ^ bit_length (n div 2)"
      using ih(2) by linarith
    ultimately show ?thesis
      by (simp add: eq)
  qed
qed

lemma bit_length_unique:
  assumes "2 ^ k \<le> n" and "n < 2 ^ Suc k"
  shows "bit_length n = Suc k"
proof -
  have pos: "0 < n"
    using assms(1) by (cases "n = 0") simp_all
  from bit_length_bounds [OF pos]
  have lo: "2 ^ (bit_length n - 1) \<le> n" and hi: "n < 2 ^ bit_length n"
    by simp_all
  have two: "(1::nat) < 2"
    by simp
  have "(2::nat) ^ (bit_length n - 1) < 2 ^ Suc k"
    using lo assms(2) by linarith
  then have a: "bit_length n - 1 < Suc k"
    by (rule power_less_imp_less_exp [OF two])
  have "(2::nat) ^ k < 2 ^ bit_length n"
    using assms(1) hi by linarith
  then have b: "k < bit_length n"
    by (rule power_less_imp_less_exp [OF two])
  from a b show ?thesis
    by linarith
qed

lemma bit_length_shift:
  assumes "0 < m"
  shows "bit_length (m * 2 ^ j) = bit_length m + j"
proof -
  from bit_length_bounds [OF assms]
  have lo: "2 ^ (bit_length m - 1) \<le> m" and hi: "m < 2 ^ bit_length m"
    by simp_all
  have b: "0 < bit_length m"
    using assms by (subst bit_length.simps) simp
  then obtain k where k: "bit_length m = Suc k"
    by (cases "bit_length m") simp_all
  have "2 ^ (k + j) \<le> m * 2 ^ j"
    using lo k by (simp add: power_add)
  moreover have "m * 2 ^ j < 2 ^ Suc (k + j)"
    using hi k by (simp add: power_add)
  ultimately have "bit_length (m * 2 ^ j) = Suc (k + j)"
    by (rule bit_length_unique)
  then show ?thesis
    using k by simp
qed

lemma ilog2_frac_one:
  assumes "0 < n"
  shows "ilog2_frac n 1 = int (bit_length n) - 1"
proof -
  from bit_length_bounds [OF assms] have lo: "2 ^ (bit_length n - 1) \<le> n"
    by simp
  have b: "0 < bit_length n"
    using assms by (subst bit_length.simps) simp
  have "nat (int (bit_length n) - 1) = bit_length n - 1"
    by simp
  then show ?thesis
    using lo b by (simp add: ilog2_frac_def ilog2_adjust_def)
qed

lemma round_ties_even_multiple [simp]: "round_ties_even (m * 2 ^ j) (2 ^ j) = m"
  by (simp add: round_ties_even_def nearest_even_def)

lemma round_ties_even_one [simp]: "round_ties_even N (Suc 0) = N"
  by (simp add: round_ties_even_def nearest_even_def)

lemma round_ties_even_lower:
  assumes "0 < D" and "a * D \<le> N"
  shows "a \<le> round_ties_even N D"
proof -
  have "a \<le> N div D"
    using assms by (simp add: less_eq_div_iff_mult_less_eq)
  then show ?thesis
    by (simp add: round_ties_even_def nearest_even_def)
qed

lemma round_ties_even_upper:
  assumes "0 < D" and "N < b * D"
  shows "round_ties_even N D \<le> b"
proof -
  have "N div D < b"
    using assms by (simp add: div_less_iff_less_mult)
  then show ?thesis
    by (simp add: round_ties_even_def nearest_even_def)
qed

lemma pack_is_double:
  assumes "k \<le> 2 ^ 53" and "- 1074 \<le> t" and "2 ^ 52 \<le> k \<or> t = - 1074"
  shows "is_double (pack s k t)"
  using assms by (auto simp add: pack_def)

lemma round_number_scaled:
  assumes "is_double (Finite s m e)"
  shows "round_number s (m * 2 ^ j) 1 (e - int j) = Finite s m e"
proof (cases "m = 0")
  case True
  with assms show ?thesis
    by (simp add: round_number_def)
next
  case False
  then have pos: "0 < m" and npos: "0 < m * 2 ^ j"
    by simp_all
  from bit_length_bounds [OF pos]
  have lo: "2 ^ (bit_length m - 1) \<le> m"
    by simp
  have two: "(1::nat) < 2"
    by simp
  have m53: "m < 2 ^ 53" and e: "- 1074 \<le> e" "e \<le> 971" and norm: "2 ^ 52 \<le> m \<or> e = - 1074"
    using assms by simp_all
  have "(2::nat) ^ (bit_length m - 1) < 2 ^ 53"
    using lo m53 by linarith
  then have "bit_length m - 1 < 53"
    by (rule power_less_imp_less_exp [OF two])
  then have b53: "bit_length m \<le> 53"
    by linarith
  have bnorm: "bit_length m = 53" if "2 ^ 52 \<le> m"
    using bit_length_unique [of 52 m] that m53 by simp
  have il: "ilog2_frac (m * 2 ^ j) 1 = int (bit_length m) + int j - 1"
    by (simp only: ilog2_frac_one [OF npos] bit_length_shift [OF pos] of_nat_add)
  have t: "max (- 1074) (ilog2_frac (m * 2 ^ j) 1 + (e - int j) - 52) = e"
    unfolding il using norm e b53 bnorm by auto
  have "round_at s (m * 2 ^ j) 1 (e - int j) e = Finite s m e"
  proof (cases "j = 0")
    case True
    then show ?thesis
      using m53 e by (simp add: round_at_def pack_def)
  next
    case False
    then show ?thesis
      using m53 e by (simp add: round_at_def pack_def)
  qed
  then show ?thesis
    using npos by (simp only: round_number_def t) simp
qed

lemma round_number_double:
  assumes "is_double (Finite s m e)"
  shows "round_number s m 1 e = Finite s m e"
  using round_number_scaled [OF assms, of 0] by simp

lemma round_number_is_double: "is_double (round_number s n 1 e)"
proof (cases "n = 0")
  case True
  then show ?thesis
    by (simp add: round_number_def)
next
  case False
  then have pos: "0 < n"
    by simp
  define B where "B = bit_length n"
  define t where "t = max (- 1074) (int B - 1 + e - 52)"
  from bit_length_bounds [OF pos]
  have lo: "2 ^ (B - 1) \<le> n" and hi: "n < 2 ^ B"
    by (simp_all add: B_def)
  have B: "0 < B"
    unfolding B_def using pos by (subst bit_length.simps) simp
  have t: "- 1074 \<le> t" and tn: "t \<noteq> - 1074 \<Longrightarrow> t = int B - 53 + e"
    by (auto simp add: t_def)
  have tge: "int B - 53 + e \<le> t"
    by (simp add: t_def)
  have "is_double (round_at s n 1 e t)"
  proof (cases "t \<le> e")
    case True
    define j where "j = nat (e - t)"
    have j: "int j = e - t"
      using True by (simp add: j_def)
    have le: "B + j \<le> 53"
      using tge j by linarith
    have "n * 2 ^ j < 2 ^ B * 2 ^ j"
      using hi by simp
    also have "\<dots> = 2 ^ (B + j)"
      by (simp add: power_add)
    also have "\<dots> \<le> 2 ^ 53"
      using le by (rule power_increasing) simp
    finally have up: "n * 2 ^ j \<le> 2 ^ 53"
      by simp
    have low: "2 ^ 52 \<le> n * 2 ^ j" if "t \<noteq> - 1074"
    proof -
      from tn [OF that] j have "B + j = 53"
        by linarith
      then have "(B - 1) + j = 52"
        using B by linarith
      then have "(2::nat) ^ 52 = 2 ^ (B - 1) * 2 ^ j"
        by (simp add: power_add [symmetric])
      also have "\<dots> \<le> n * 2 ^ j"
        using lo by simp
      finally show ?thesis .
    qed
    have "is_double (pack s (n * 2 ^ j) t)"
      using up t low by (intro pack_is_double) auto
    then show ?thesis
      using True by (simp add: round_at_def j_def)
  next
    case False
    define j where "j = nat (t - e)"
    have j: "int j = t - e"
      using False by (simp add: j_def)
    have le: "B \<le> 53 + j"
      using tge j by linarith
    have "n < 2 ^ B"
      by (rule hi)
    also have "\<dots> \<le> 2 ^ (53 + j)"
      using le by (rule power_increasing) simp
    finally have "n < 2 ^ 53 * 2 ^ j"
      by (simp add: power_add)
    then have up: "round_ties_even n (2 ^ j) \<le> 2 ^ 53"
      by (intro round_ties_even_upper) simp_all
    have low: "2 ^ 52 \<le> round_ties_even n (2 ^ j)" if "t \<noteq> - 1074"
    proof -
      from tn [OF that] j have "int B = 53 + int j"
        by linarith
      then have "B - 1 = 52 + j"
        by linarith
      then have "(2::nat) ^ 52 * 2 ^ j = 2 ^ (B - 1)"
        by (simp add: power_add)
      then have "2 ^ 52 * 2 ^ j \<le> n"
        using lo by simp
      then show ?thesis
        by (intro round_ties_even_lower) simp_all
    qed
    have "is_double (pack s (round_ties_even n (2 ^ j)) t)"
      using up t low by (intro pack_is_double) auto
    then show ?thesis
      using False by (simp add: round_at_def j_def)
  qed
  moreover have "max (- 1074) (ilog2_frac n 1 + e - 52) = t"
    by (simp only: ilog2_frac_one [OF pos] t_def B_def)
  ultimately show ?thesis
    using pos by (simp only: round_number_def) simp
qed

section \<open>Degenerate inputs\<close>

text \<open>
  Adding zero and multiplying by one change nothing but the sign of a zero, and the
  difference of a number with itself is zero or NaN: the sums of a one-point input.
\<close>

lemma times_is_double: "is_double (a * b)"
  by (cases a; cases b) (simp_all add: round_number_is_double del: One_nat_def)

lemma zero_plus_double:
  assumes "is_double a"
  shows "0 + a = (if is_zero a then 0 else a)"
proof (cases a)
  case (Finite s m e)
  then show ?thesis
    using assms round_number_double [of s m e]
    by (simp add: zero_number_def del: One_nat_def is_double.simps)
qed (simp_all add: zero_number_def)

lemma one_times_double:
  assumes "is_double a"
  shows "1 * a = a"
proof (cases a)
  case (Finite s m e)
  have "round_number s (m * 2 ^ 52) 1 (e - int 52) = Finite s m e"
    using assms unfolding Finite by (rule round_number_scaled)
  then show ?thesis
    unfolding Finite by (simp add: one_number_def mult.commute del: One_nat_def)
qed (simp_all add: one_number_def)

lemma zero_is_double: "is_double 0"
  by (simp add: zero_number_def)

lemma zero_plus_is_double: "is_double a \<Longrightarrow> is_double (0 + a)"
  by (simp add: zero_plus_double zero_is_double)

lemma minus_same_value:
  assumes "a = b \<or> (is_zero a \<and> is_zero b)"
  shows "is_zero (a - b) \<or> a - b = NaN"
  using assms
  by (cases a; cases b) (auto simp add: minus_number_def round_signed_def signed_def)

lemma minus_NaN [simp]: "a - NaN = NaN" "NaN - a = NaN"
  by (cases a; simp add: minus_number_def)+

lemma times_zero_left: "is_zero a \<Longrightarrow> is_zero (a * b) \<or> a * b = NaN"
  by (cases a; cases b) (simp_all add: round_number_def)

lemma times_zero_right: "is_zero b \<Longrightarrow> is_zero (a * b) \<or> a * b = NaN"
  by (cases a; cases b) (simp_all add: round_number_def)

lemma divide_zero_by_zero:
  assumes "is_zero a \<or> a = NaN" and "is_zero b \<or> b = NaN"
  shows "a / b = NaN"
  using assms by (cases a; cases b) auto

lemma divide_by_zero_not_finite:
  assumes "is_zero b"
  shows "\<not> isFinite (a / b)"
  using assms by (cases a; cases b) auto

lemma length_number_Suc_0: "length_number (Suc 0) = (1::number)"
  by (simp add: num_eval)

lemma one_point_difference:
  assumes P: "is_double P"
    and Q: "Q = P \<or> ((is_zero P \<or> P = NaN) \<and> (is_zero Q \<or> Q = NaN))"
  shows "is_zero (1 * (0 + P) - Q) \<or> 1 * (0 + P) - Q = NaN"
proof -
  have one: "1 * (0 + P) = 0 + P"
    using P by (intro one_times_double zero_plus_is_double)
  show ?thesis
  proof (cases "is_zero P")
    case True
    then have "0 + P = 0"
      using P by (simp add: zero_plus_double)
    with one have z: "1 * (0 + P) = 0"
      by (simp only:)
    have "is_zero Q \<or> Q = NaN"
      using Q True by auto
    then show ?thesis
    proof
      assume "is_zero Q"
      then show ?thesis
        unfolding z by (intro minus_same_value) (simp add: zero_number_def)
    next
      assume "Q = NaN"
      then show ?thesis
        by simp
    qed
  next
    case False
    then have "0 + P = P"
      using P by (simp add: zero_plus_double)
    with one have z: "1 * (0 + P) = P"
      by (simp only:)
    show ?thesis
    proof (cases "P = NaN")
      case True
      then show ?thesis
        using z by simp
    next
      case False
      with \<open>\<not> is_zero P\<close> Q have "Q = P"
        by auto
      then show ?thesis
        unfolding z by (intro minus_same_value) simp
    qed
  qed
qed

lemma one_point_slope:
  assumes x: "is_double x" and y: "is_double y"
  shows "slope (calculateLinearRegression pow2 [\<lparr>voltage = x, current = y\<rparr>]) = NaN"
proof -
  have zx: "0 + x = (if is_zero x then 0 else x)" and zy: "0 + y = (if is_zero y then 0 else y)"
    using x y by (simp_all add: zero_plus_double)
  have z0: "is_zero (0::number)"
    by (simp add: zero_number_def)
  have den: "(0 + x) * (0 + x) = x * x
             \<or> ((is_zero (x * x) \<or> x * x = NaN)
                \<and> (is_zero ((0 + x) * (0 + x)) \<or> (0 + x) * (0 + x) = NaN))"
  proof (cases "is_zero x")
    case True
    then show ?thesis
      using times_zero_left [of x x] times_zero_left [of 0 0] z0 by (simp add: zx)
  next
    case False
    then show ?thesis
      by (simp add: zx)
  qed
  have num: "(0 + x) * (0 + y) = x * y
             \<or> ((is_zero (x * y) \<or> x * y = NaN)
                \<and> (is_zero ((0 + x) * (0 + y)) \<or> (0 + x) * (0 + y) = NaN))"
  proof (cases "is_zero x")
    case True
    then show ?thesis
      using times_zero_left [of x y] times_zero_left [of 0 "0 + y"] z0 by (simp add: zx)
  next
    case nx: False
    show ?thesis
    proof (cases "is_zero y")
      case True
      then show ?thesis
        using times_zero_right [of y x] times_zero_right [of 0 "0 + x"] z0 by (simp add: zy)
    next
      case False
      with nx show ?thesis
        by (simp add: zx zy)
    qed
  qed
  have d: "is_zero (1 * (0 + x * x) - (0 + x) * (0 + x))
           \<or> 1 * (0 + x * x) - (0 + x) * (0 + x) = NaN"
    using times_is_double den by (rule one_point_difference)
  have n: "is_zero (1 * (0 + x * y) - (0 + x) * (0 + y))
           \<or> 1 * (0 + x * y) - (0 + x) * (0 + y) = NaN"
    using times_is_double num by (rule one_point_difference)
  have "slope (calculateLinearRegression pow2 [\<lparr>voltage = x, current = y\<rparr>])
        = (1 * (0 + x * y) - (0 + x) * (0 + y)) / (1 * (0 + x * x) - (0 + x) * (0 + x))"
    by (simp add: slope_sigma sigma_def length_number_Suc_0 del: length_number.simps One_nat_def)
  then show ?thesis
    using divide_zero_by_zero [OF n d] by simp
qed

text \<open>
  C8, as stated: for a single point, or for two or more points that share one
  x-value, the fit returns a slope that is not finite, and the denominator
  \<open>n\<cdot>\<Sigma>x\<^sup>2 - (\<Sigma>x)\<^sup>2\<close> is zero exactly when all x-values are identical. In the
  arithmetic of the program the second part fails: for three measurements at the
  voltage \<open>0.3\<close> with the currents 0, 1, 2 the sums round, the denominator is
  \<open>2 ^ (-52)\<close> and not zero, and the slope is the finite number 0.
\<close>

theorem repeated_x_counterexample:
  "map voltage repeated_voltage = [literal 3 10, literal 3 10, literal 3 10]
   \<and> isFinite (slope (calculateLinearRegression square repeated_voltage))
   \<and> \<not> is_zero (slope_denominator repeated_voltage)"
  by (simp add: slope_sigma slope_denominator_def sigma_def repeated_voltage_def
      measurement_def num_eval)

text \<open>
  C8, amended. No operation of the fit raises. For every input of a single point
  the slope is NaN. Whenever the computed denominator is zero, the slope is NaN or
  an infinity. In exact arithmetic the denominator \<open>n\<cdot>\<Sigma>x\<^sup>2 - (\<Sigma>x)\<^sup>2\<close> of a non-empty
  sequence is zero exactly when all x-values are identical.
\<close>

theorem degenerate_slope:
  fixes ps :: "number point list" and qs :: "real point list"
  shows "(is_double x \<and> is_double y \<longrightarrow>
            slope (calculateLinearRegression pow2 [\<lparr>voltage = x, current = y\<rparr>]) = NaN)
         \<and> (is_zero (slope_denominator ps) \<longrightarrow>
              \<not> isFinite (slope (calculateLinearRegression pow2 ps)))
         \<and> (qs \<noteq> [] \<longrightarrow>
              (slope_denominator qs = 0) = (\<forall>p\<in>set qs. \<forall>q\<in>set qs. voltage p = voltage q))"
proof (intro conjI impI)
  assume "is_double x \<and> is_double y"
  then show "slope (calculateLinearRegression pow2 [\<lparr>voltage = x, current = y\<rparr>]) = NaN"
    by (simp add: one_point_slope)
next
  assume "is_zero (slope_denominator ps)"
  then show "\<not> isFinite (slope (calculateLinearRegression pow2 ps))"
    unfolding slope_sigma slope_denominator_def by (rule divide_by_zero_not_finite)
next
  assume "qs \<noteq> []"
  then show "(slope_denominator qs = 0) = (\<forall>p\<in>set qs. \<forall>q\<in>set qs. voltage p = voltage q)"
    by (rule slope_denominator_zero_iff)
qed

theorem degenerate_slope_witness:
  "slope (calculateLinearRegression square [\<lparr>voltage = literal 1 10, current = literal 1 1\<rparr>]) = NaN
   \<and> \<not> isFinite (slope (calculateLinearRegression square
        [measurement (literal 1 10) (literal 1 1), measurement (literal 1 10) (literal 2 1)]))
   \<and> slope_denominator [measurement 1 2, measurement 1 (3::real)] = 0"
  using degenerate_slope [of "literal 1 10" "literal 1 1" square
      "[measurement (literal 1 10) (literal 1 1), measurement (literal 1 10) (literal 2 1)]"
      "[measurement 1 2, measurement 1 (3::real)]"]
  by (simp add: slope_denominator_def sigma_def measurement_def num_eval)

end
